theory Spec2Isabelle
  imports Main
begin

section \<open>Property-list parser: data model\<close>

text \<open>
  The development embeds \<^verbatim>\<open>src/lib/plist/parser.ts\<close>: the tag registry
  (\<^verbatim>\<open>PTag.mappings\<close>), the node classes with their \<^verbatim>\<open>to_ruby\<close> conversions, the
  \<^verbatim>\<open>Listener\<close> that builds the tree and the \<^verbatim>\<open>StreamParser\<close> that scans the text.

  Text is a list of characters, one \<^typ>\<open>char\<close> per character the scanner sees.
  The input is taken to be text that the patterns can be matched against: valid in
  its encoding, which is ASCII-compatible. A declared encoding can change that, and
  the scan loop carries the exception that scans of the retagged text raise.
  Exceptions are values of the type \<open>error\<close>; a function that can raise returns
  \<open>error + 'a\<close>, with \<open>Inl\<close> for the exception.
\<close>

datatype error =
    RuntimeError string
  | NoMethodError string
  | TypeError string
  | ArgumentError string
  | CompatibilityError string

text \<open>
  The node classes. Every subclass of \<^verbatim>\<open>PTag\<close> inherits the fields \<^verbatim>\<open>text\<close> (unset
  until a text event assigns it) and \<^verbatim>\<open>children\<close> (the empty array at construction).
\<close>

datatype ptag =
  PList | PDict | PKey | PString | PArray | PInteger | PTrue | PFalse | PReal | PDate | PData

datatype node = Node (kind: ptag) (text_of: "string option") (children: "node list")

definition new_node :: "ptag \<Rightarrow> node" where
  "new_node k = Node k None []"

text \<open>
  The values the conversions produce. Floats, date-times and the objects that
  \<^verbatim>\<open>Marshal.load\<close> returns are values of the standard library whose representation is
  outside this development; they are carried in the type parameter \<open>'x\<close>.
  A \<^verbatim>\<open>Hash\<close> is an association list in insertion order; a \<^verbatim>\<open>StringIO\<close> is the
  byte string it holds, rewound to position 0.
\<close>

datatype 'x rvalue =
    VNil
  | VBool bool
  | VInt int
  | VString string
  | VArray "'x rvalue list"
  | VHash "('x rvalue \<times> 'x rvalue) list"
  | VFloat 'x
  | VDateTime 'x
  | VStringIO string
  | VObject 'x

text \<open>
  An \<^verbatim>\<open>Encoding\<close> object: its name and \<^verbatim>\<open>ascii_compatible?\<close>, which is false for
  UTF-16 and UTF-32.
\<close>

datatype encoding = Encoding (encoding_name: string) (ascii_compatible: bool)

text \<open>
  The standard-library operations the program calls and this development does not
  define. \<open>File_read p\<close> is \<open>None\<close> when \<^verbatim>\<open>File.exist? p\<close> is false and the
  content of the file otherwise. \<open>Encoding_find\<close> is \<^verbatim>\<open>Encoding.find\<close> on a string,
  \<open>None\<close> when it raises \<^verbatim>\<open>ArgumentError\<close> for a name it does not know.
  \<open>scan_error enc s\<close> is the exception that matching a pattern against the text
  \<open>s\<close> tagged with \<open>enc\<close> raises before any matching is done, such as
  \<^verbatim>\<open>ArgumentError\<close> for a byte sequence that is invalid in the encoding; \<open>None\<close> when
  there is none. \<open>to_f\<close> is \<^verbatim>\<open>String#to_f\<close>, and \<^verbatim>\<open>NilClass#to_f\<close> at \<open>None\<close>.
\<close>

record 'x externals =
  File_read :: "string \<Rightarrow> string option"
  Encoding_find :: "string \<Rightarrow> encoding option"
  scan_error :: "encoding \<Rightarrow> string \<Rightarrow> error option"
  unescapeHTML :: "string \<Rightarrow> error + string"
  to_f :: "string option \<Rightarrow> 'x"
  DateTime_parse :: "string \<Rightarrow> error + 'x"
  decode64 :: "string \<Rightarrow> string"
  Marshal_load :: "string \<Rightarrow> error + 'x rvalue"

subsection \<open>Characters\<close>

text \<open>The class \<^verbatim>\<open>\s\<close> of the regular expressions, also C's \<^verbatim>\<open>isspace\<close>.\<close>

definition isspace :: "char \<Rightarrow> bool" where
  "isspace c \<longleftrightarrow> c \<in> set [CHR '' '', CHR 0x09, CHR 0x0A, CHR 0x0B, CHR 0x0C, CHR 0x0D]"

definition isdigit :: "char \<Rightarrow> bool" where
  "isdigit c \<longleftrightarrow> c \<in> set ''0123456789''"

definition digit_val :: "char \<Rightarrow> int" where
  "digit_val c = int (of_char c) - 48"

text \<open>
  Letter case is the case of the letters \<^verbatim>\<open>A\<close> to \<^verbatim>\<open>Z\<close>: \<^verbatim>\<open>downcase\<close>, and the flag
  \<^verbatim>\<open>i\<close> of a pattern on such text.
\<close>

definition downcase_char :: "char \<Rightarrow> char" where
  "downcase_char c =
     (if c \<in> set ''ABCDEFGHIJKLMNOPQRSTUVWXYZ'' then char_of (of_char c + (32::nat)) else c)"

definition downcase :: "string \<Rightarrow> string" where
  "downcase s = map downcase_char s"

subsection \<open>\<^verbatim>\<open>String#to_i\<close>\<close>

text \<open>
  \<^verbatim>\<open>String#to_i\<close> in base 10 never raises. It skips leading white space, reads one
  optional sign and an optional \<^verbatim>\<open>0d\<close> prefix, and then the longest run of digits in
  which single underscores may separate digits; everything after that run is
  ignored, and the result is 0 when no digit starts the run. \<open>scan_digits\<close> is the
  digit loop: \<open>us\<close> tells that the previous character was an underscore.
\<close>

fun scan_digits :: "bool \<Rightarrow> int \<Rightarrow> string \<Rightarrow> int" where
  "scan_digits us acc [] = acc"
| "scan_digits us acc (c # cs) =
     (if c = CHR ''_'' then (if us then acc else scan_digits True acc cs)
      else if isdigit c then scan_digits False (acc * 10 + digit_val c) cs
      else acc)"

definition strip_sign :: "string \<Rightarrow> bool \<times> string" where
  "strip_sign s =
     (case s of
        [] \<Rightarrow> (False, s)
      | c # r \<Rightarrow> if c = CHR ''+'' then (False, r) else if c = CHR ''-'' then (True, r) else (False, s))"

definition strip_0d :: "string \<Rightarrow> string" where
  "strip_0d s =
     (case s of
        a # b # r \<Rightarrow> if a = CHR ''0'' \<and> (b = CHR ''d'' \<or> b = CHR ''D'') then r else s
      | _ \<Rightarrow> s)"

definition String_to_i :: "string \<Rightarrow> int" where
  "String_to_i s =
     (let (neg, s2) = strip_sign (dropWhile isspace s);
          s3 = strip_0d s2;
          n = (case s3 of [] \<Rightarrow> 0 | c # _ \<Rightarrow> if isdigit c then scan_digits False 0 s3 else 0)
      in if neg then - n else n)"

text \<open>\<^verbatim>\<open>text.to_i\<close>: \<^verbatim>\<open>NilClass#to_i\<close> is 0.\<close>

definition to_i :: "string option \<Rightarrow> int" where
  "to_i t = (case t of None \<Rightarrow> 0 | Some s \<Rightarrow> String_to_i s)"

subsection \<open>Hashes\<close>

text \<open>
  \<^verbatim>\<open>dict[key] = value\<close>: a key already present keeps its place and gets the new
  value, a new key is appended. Keys are compared with HOL equality, which is
  \<^verbatim>\<open>eql?\<close> on strings, integers and booleans.
\<close>

fun hash_store :: "('k \<times> 'v) list \<Rightarrow> 'k \<Rightarrow> 'v \<Rightarrow> ('k \<times> 'v) list" where
  "hash_store [] k v = [(k, v)]"
| "hash_store ((k', v') # h) k v =
     (if k' = k then (k', v) # h else (k', v') # hash_store h k v)"

section \<open>Value conversion\<close>

text \<open>\<^verbatim>\<open>text.gsub(/\s+/, '')\<close> deletes every white-space character.\<close>

definition gsub_space :: "string \<Rightarrow> string" where
  "gsub_space s = filter (\<lambda>c. \<not> isspace c) s"

text \<open>\<^verbatim>\<open>text || ''\<close>\<close>

definition text_or_empty :: "string option \<Rightarrow> string" where
  "text_or_empty t = (case t of None \<Rightarrow> [] | Some s \<Rightarrow> s)"

text \<open>
  \<^verbatim>\<open>PData#to_ruby\<close>. The decoded bytes are \<^verbatim>\<open>nil\<close> when the text is unset; then
  \<^verbatim>\<open>Marshal.load(nil)\<close> raises \<^verbatim>\<open>TypeError\<close>, and \<^verbatim>\<open>io.write nil\<close> writes the empty
  string. \<^verbatim>\<open>rescue Exception\<close> catches every exception of \<^verbatim>\<open>Marshal.load\<close>.
\<close>

definition PData_to_ruby :: "'x externals \<Rightarrow> string option \<Rightarrow> error + 'x rvalue" where
  "PData_to_ruby X t =
     (case map_option (\<lambda>s. decode64 X (gsub_space s)) t of
        None \<Rightarrow> Inr (VStringIO [])
      | Some data \<Rightarrow>
          (case Marshal_load X data of
             Inr v \<Rightarrow> Inr v
           | Inl e \<Rightarrow> Inr (VStringIO data)))"

text \<open>\<^verbatim>\<open>PDate#to_ruby\<close>: \<^verbatim>\<open>DateTime.parse(nil)\<close> raises \<^verbatim>\<open>TypeError\<close>.\<close>

definition PDate_to_ruby :: "'x externals \<Rightarrow> string option \<Rightarrow> error + 'x rvalue" where
  "PDate_to_ruby X t =
     (case t of
        None \<Rightarrow> Inl (TypeError ''no implicit conversion of nil into String'')
      | Some s \<Rightarrow> (case DateTime_parse X s of Inl e \<Rightarrow> Inl e | Inr d \<Rightarrow> Inr (VDateTime d)))"

text \<open>\<^verbatim>\<open>PKey#to_ruby\<close> and \<^verbatim>\<open>PString#to_ruby\<close>: \<^verbatim>\<open>CGI.unescapeHTML(text || '')\<close>.\<close>

definition PString_to_ruby :: "'x externals \<Rightarrow> string option \<Rightarrow> error + 'x rvalue" where
  "PString_to_ruby X t =
     (case unescapeHTML X (text_or_empty t) of Inl e \<Rightarrow> Inl e | Inr s \<Rightarrow> Inr (VString s))"

text \<open>
  \<open>to_ruby\<close> dispatches on the class of the node. \<open>collect\<close> is
  \<^verbatim>\<open>children.collect { |c| c.to_ruby }\<close> of \<^verbatim>\<open>PArray\<close>; \<open>dict_each\<close> is the loop
  \<^verbatim>\<open>children.each\<close> of \<^verbatim>\<open>PDict\<close>, with the hash and the pending key (\<open>VNil\<close> for
  \<^verbatim>\<open>nil\<close>) as its state. An exception of a child's conversion leaves the loop.
\<close>

fun to_ruby :: "'x externals \<Rightarrow> node \<Rightarrow> error + 'x rvalue"
  and collect :: "'x externals \<Rightarrow> node list \<Rightarrow> error + 'x rvalue list"
  and dict_each :: "'x externals \<Rightarrow> node list \<Rightarrow> ('x rvalue \<times> 'x rvalue) list \<Rightarrow> 'x rvalue
                      \<Rightarrow> error + ('x rvalue \<times> 'x rvalue) list"
where
  "to_ruby X (Node PList t cs) = (case cs of [] \<Rightarrow> Inr VNil | c # _ \<Rightarrow> to_ruby X c)"
| "to_ruby X (Node PDict t cs) =
     (case dict_each X cs [] VNil of Inl e \<Rightarrow> Inl e | Inr d \<Rightarrow> Inr (VHash d))"
| "to_ruby X (Node PKey t cs) = PString_to_ruby X t"
| "to_ruby X (Node PString t cs) = PString_to_ruby X t"
| "to_ruby X (Node PArray t cs) =
     (case collect X cs of Inl e \<Rightarrow> Inl e | Inr vs \<Rightarrow> Inr (VArray vs))"
| "to_ruby X (Node PInteger t cs) = Inr (VInt (to_i t))"
| "to_ruby X (Node PTrue t cs) = Inr (VBool True)"
| "to_ruby X (Node PFalse t cs) = Inr (VBool False)"
| "to_ruby X (Node PReal t cs) = Inr (VFloat (to_f X t))"
| "to_ruby X (Node PDate t cs) = PDate_to_ruby X t"
| "to_ruby X (Node PData t cs) = PData_to_ruby X t"
| "collect X [] = Inr []"
| "collect X (c # cs) =
     (case to_ruby X c of
        Inl e \<Rightarrow> Inl e
      | Inr v \<Rightarrow> (case collect X cs of Inl e \<Rightarrow> Inl e | Inr vs \<Rightarrow> Inr (v # vs)))"
| "dict_each X [] dict key = Inr dict"
| "dict_each X (c # cs) dict key =
     (case to_ruby X c of
        Inl e \<Rightarrow> Inl e
      | Inr v \<Rightarrow>
          if key = VNil then dict_each X cs dict v
          else dict_each X cs (hash_store dict key v) VNil)"

section \<open>Tag registry\<close>

text \<open>
  \<^verbatim>\<open>PTag.inherited\<close> runs once for each subclass, in the order of the class
  definitions, and stores the class under a key derived from its name: the name in
  lower case, without the module prefix \<^verbatim>\<open>plist::\<close>, and without its leading \<^verbatim>\<open>p\<close>
  unless the key is \<^verbatim>\<open>plist\<close>.
\<close>

definition starts_with :: "string \<Rightarrow> string \<Rightarrow> bool" where
  "starts_with p s \<longleftrightarrow> take (length p) s = p"

definition class_name :: "ptag \<Rightarrow> string" where
  "class_name k =
     (case k of
        PList \<Rightarrow> ''Plist::PList'' | PDict \<Rightarrow> ''Plist::PDict'' | PKey \<Rightarrow> ''Plist::PKey''
      | PString \<Rightarrow> ''Plist::PString'' | PArray \<Rightarrow> ''Plist::PArray''
      | PInteger \<Rightarrow> ''Plist::PInteger'' | PTrue \<Rightarrow> ''Plist::PTrue''
      | PFalse \<Rightarrow> ''Plist::PFalse'' | PReal \<Rightarrow> ''Plist::PReal''
      | PDate \<Rightarrow> ''Plist::PDate'' | PData \<Rightarrow> ''Plist::PData'')"

definition strip_prefix :: "string \<Rightarrow> string \<Rightarrow> string" where
  "strip_prefix p s = (if starts_with p s then drop (length p) s else s)"

definition inherited :: "(string \<times> ptag) list \<Rightarrow> ptag \<Rightarrow> (string \<times> ptag) list" where
  "inherited m sub_class =
     (let key = strip_prefix ''plist::'' (downcase (class_name sub_class));
          key = (if key = ''plist'' then key else strip_prefix ''p'' key)
      in hash_store m key sub_class)"

definition mappings :: "(string \<times> ptag) list" where
  "mappings =
     foldl inherited []
       [PList, PDict, PKey, PString, PArray, PInteger, PTrue, PFalse, PReal, PDate, PData]"

text \<open>
  The registry that the eleven class definitions leave behind, and the names that
  the tag patterns are built from, in the order of registration.
\<close>

definition plist_tags :: "string list" where
  "plist_tags = map fst mappings"

lemma mappings_eq [code]:
  "mappings =
     [(''plist'', PList), (''dict'', PDict), (''key'', PKey), (''string'', PString),
      (''array'', PArray), (''integer'', PInteger), (''true'', PTrue), (''false'', PFalse),
      (''real'', PReal), (''date'', PDate), (''data'', PData)]"
  by code_simp

lemma plist_tags_eq [code]:
  "plist_tags =
     [''plist'', ''dict'', ''key'', ''string'', ''array'', ''integer'', ''true'', ''false'',
      ''real'', ''date'', ''data'']"
  by (simp add: plist_tags_def mappings_eq)

section \<open>Tree builder\<close>

text \<open>
  The listener holds the result (\<^verbatim>\<open>null\<close> at construction) and the stack of open
  nodes; \<^verbatim>\<open>push\<close> and \<^verbatim>\<open>pop\<close> work at the end of the array, so the top of the stack is
  the last element of the list.
\<close>

record 'x listener =
  result :: "'x rvalue"
  "open" :: "node list"

definition Listener_new :: "'x listener" where
  "Listener_new = \<lparr>result = VNil, open = []\<rparr>"

text \<open>
  \<^verbatim>\<open>tag_start\<close>: the registry is read at the name as the scanner captured it; at a name
  that is not a key the lookup gives \<^verbatim>\<open>nil\<close>, and constructing from \<^verbatim>\<open>nil\<close> raises.
\<close>

definition Listener_tag_start :: "string \<Rightarrow> 'x listener \<Rightarrow> error + 'x listener" where
  "Listener_tag_start name l =
     (case map_of mappings name of
        None \<Rightarrow> Inl (NoMethodError ''new'')
      | Some k \<Rightarrow> Inr (l\<lparr>open := open l @ [new_node k]\<rparr>))"

text \<open>\<^verbatim>\<open>text\<close>: with an open node, the contents are assigned to the text of the top node.\<close>

definition set_text :: "string \<Rightarrow> node \<Rightarrow> node" where
  "set_text contents n = Node (kind n) (Some contents) (children n)"

definition Listener_text :: "string \<Rightarrow> 'x listener \<Rightarrow> 'x listener" where
  "Listener_text contents l =
     (if length (open l) > 0
      then l\<lparr>open := butlast (open l) @ [set_text contents (last (open l))]\<rparr>
      else l)"

text \<open>
  \<^verbatim>\<open>tag_end\<close>: the name is not used. On an empty stack \<^verbatim>\<open>pop\<close> returns \<^verbatim>\<open>nil\<close>, the stack
  is still empty, and \<^verbatim>\<open>nil.to_ruby\<close> raises.
\<close>

definition push_child :: "node \<Rightarrow> node \<Rightarrow> node" where
  "push_child c n = Node (kind n) (text_of n) (children n @ [c])"

definition Listener_tag_end :: "'x externals \<Rightarrow> string \<Rightarrow> 'x listener \<Rightarrow> error + 'x listener" where
  "Listener_tag_end X name l =
     (if open l = [] then Inl (NoMethodError ''to_ruby'')
      else
        let lst = last (open l); rest = butlast (open l) in
        if length rest = 0
        then (case to_ruby X lst of
                Inl e \<Rightarrow> Inl e
              | Inr v \<Rightarrow> Inr (l\<lparr>result := v, open := rest\<rparr>))
        else Inr (l\<lparr>open := butlast rest @ [push_child lst (last rest)]\<rparr>))"

section \<open>Stream scanner\<close>

text \<open>
  \<^verbatim>\<open>StringScanner#scan\<close> matches a pattern at the scan pointer and moves the pointer
  behind the match. Each pattern is a function from the text at the pointer to the
  captured groups and the text behind the match, \<open>None\<close> when it does not match.
\<close>

text \<open>\<^verbatim>\<open>COMMENT_START = /\A<!--/\<close>\<close>

definition scan_COMMENT_START :: "string \<Rightarrow> string option" where
  "scan_COMMENT_START s = (if starts_with ''<!--'' s then Some (drop 4 s) else None)"

text \<open>\<^verbatim>\<open>COMMENT_END = /.*?-->/m\<close>: up to the first \<^verbatim>\<open>-->\<close>.\<close>

fun scan_COMMENT_END :: "string \<Rightarrow> string option" where
  "scan_COMMENT_END [] = None"
| "scan_COMMENT_END (c # cs) =
     (if starts_with ''-->'' (c # cs) then Some (drop 3 (c # cs)) else scan_COMMENT_END cs)"

text \<open>
  \<^verbatim>\<open>XMLDECL_PATTERN = /<\?xml\s+(.*?)\?>*/m\<close>: the literal, white space, the
  declaration up to the first question mark, and every \<^verbatim>\<open>>\<close> that follows it.
  The result is group 1 and the text behind the match.
\<close>

definition scan_XMLDECL :: "string \<Rightarrow> (string \<times> string) option" where
  "scan_XMLDECL s =
     (if starts_with ''<?xml'' s then
        let s1 = drop 5 s; s2 = dropWhile isspace s1 in
        if takeWhile isspace s1 \<noteq> [] \<and> CHR ''?'' \<in> set s2
        then Some (takeWhile (\<lambda>c. c \<noteq> CHR ''?'') s2,
                   dropWhile (\<lambda>c. c = CHR ''>'') (tl (dropWhile (\<lambda>c. c \<noteq> CHR ''?'') s2)))
        else None
      else None)"

text \<open>
  \<^verbatim>\<open>DOCTYPE_PATTERN = /\s*<!DOCTYPE\s+(.*?)(\[|>)/m\<close>: up to the first bracket or
  \<^verbatim>\<open>>\<close> behind the white space that follows the literal.
\<close>

definition scan_DOCTYPE :: "string \<Rightarrow> string option" where
  "scan_DOCTYPE s =
     (let s0 = dropWhile isspace s in
      if starts_with ''<!DOCTYPE'' s0 then
        let s1 = drop 9 s0;
            s3 = dropWhile (\<lambda>c. c \<noteq> CHR ''['' \<and> c \<noteq> CHR ''>'') (dropWhile isspace s1)
        in if takeWhile isspace s1 \<noteq> [] \<and> s3 \<noteq> [] then Some (tl s3) else None
      else None)"

text \<open>
  The alternation \<^verbatim>\<open>(plist|dict|...)\<close> of the tag patterns, under the flag \<^verbatim>\<open>i\<close>,
  followed by \<^verbatim>\<open>[^>]*>\<close>: the first name that the text starts with, letter case
  ignored, and that has a \<^verbatim>\<open>>\<close> somewhere behind it. The result is the text
  matched by the group (in the letter case of the input) and the text behind it.
\<close>

fun match_name :: "string list \<Rightarrow> string \<Rightarrow> (string \<times> string) option" where
  "match_name [] s = None"
| "match_name (n # ns) s =
     (if downcase (take (length n) s) = downcase n \<and> CHR ''>'' \<in> set (drop (length n) s)
      then Some (take (length n) s, drop (length n) s)
      else match_name ns s)"

text \<open>
  \<^verbatim>\<open>plist_tags = PTag.mappings.keys.join('|')\<close> gives the alternation of both tag
  patterns.
  \<^verbatim>\<open>start_tag = /<(#{plist_tags})([^>]*)>/i\<close>: groups 1 and 2, and the rest.\<close>

definition scan_start_tag :: "string \<Rightarrow> (string \<times> string \<times> string) option" where
  "scan_start_tag s =
     (case s of
        [] \<Rightarrow> None
      | c # s1 \<Rightarrow>
          if c \<noteq> CHR ''<'' then None
          else (case match_name plist_tags s1 of
                  None \<Rightarrow> None
                | Some (name, r) \<Rightarrow>
                    Some (name, takeWhile (\<lambda>c. c \<noteq> CHR ''>'') r,
                          tl (dropWhile (\<lambda>c. c \<noteq> CHR ''>'') r))))"

text \<open>\<^verbatim>\<open>end_tag = /<\/(#{plist_tags})[^>]*>/i\<close>: group 1 and the rest.\<close>

definition scan_end_tag :: "string \<Rightarrow> (string \<times> string) option" where
  "scan_end_tag s =
     (if starts_with ''</'' s then
        (case match_name plist_tags (drop 2 s) of
           None \<Rightarrow> None
         | Some (name, r) \<Rightarrow> Some (name, tl (dropWhile (\<lambda>c. c \<noteq> CHR ''>'') r)))
      else None)"

text \<open>\<^verbatim>\<open>TEXT = /([^<]+)/\<close>\<close>

definition scan_TEXT :: "string \<Rightarrow> (string \<times> string) option" where
  "scan_TEXT s =
     (let t = takeWhile (\<lambda>c. c \<noteq> CHR ''<'') s
      in if t = [] then None else Some (t, dropWhile (\<lambda>c. c \<noteq> CHR ''<'') s))"

text \<open>
  \<^verbatim>\<open>@scanner[2] =~ /\/$/\<close>: a slash at the end of a line of the attribute text, that
  is, before a newline or at the end.
\<close>

fun self_closing :: "string \<Rightarrow> bool" where
  "self_closing [] = False"
| "self_closing (c # cs) =
     ((c = CHR ''/'' \<and> (case cs of [] \<Rightarrow> True | d # _ \<Rightarrow> d = CHR 0x0A)) \<or> self_closing cs)"

subsection \<open>The declared encoding\<close>

text \<open>
  \<^verbatim>\<open>parse_encoding_from_xml_declaration\<close> searches the declaration for
  \<^verbatim>\<open>/(?:\A|\s)encoding=(?:"(.*?)"|'(.*?)')(?:\s|\Z)/\<close> and passes group 1 to
  \<^verbatim>\<open>Encoding.find\<close>. \<open>lazy_quoted q\<close> is \<^verbatim>\<open>(.*?)\<close> up to the first closing quote that
  white space or the end follows; the dot does not match a newline.
  \<open>encoding_attr\<close> is the pattern behind its first group, and \<open>match_encoding\<close> the
  search for the leftmost match. The result \<open>Some None\<close> is a match whose group 1
  is unset: the name was in single quotes.
\<close>

fun lazy_quoted :: "char \<Rightarrow> string \<Rightarrow> string option" where
  "lazy_quoted q [] = None"
| "lazy_quoted q (c # cs) =
     (if c = q \<and> (case cs of [] \<Rightarrow> True | d # _ \<Rightarrow> isspace d) then Some []
      else if c = CHR 0x0A then None
      else map_option ((#) c) (lazy_quoted q cs))"

definition encoding_attr :: "string \<Rightarrow> string option option" where
  "encoding_attr s =
     (if starts_with ''encoding='' s then
        (case drop 9 s of
           [] \<Rightarrow> None
         | q # r \<Rightarrow>
             if q = CHR 0x22 then map_option Some (lazy_quoted q r)
             else if q = CHR 0x27 then map_option (\<lambda>_. None) (lazy_quoted q r)
             else None)
      else None)"

fun match_encoding :: "bool \<Rightarrow> string \<Rightarrow> string option option" where
  "match_encoding at_start [] = None"
| "match_encoding at_start (c # cs) =
     (case (if at_start then encoding_attr (c # cs) else None) of
        Some g \<Rightarrow> Some g
      | None \<Rightarrow>
          (case (if isspace c then encoding_attr cs else None) of
             Some g \<Rightarrow> Some g
           | None \<Rightarrow> match_encoding False cs))"

text \<open>
  The result is the encoding found, or \<^verbatim>\<open>nil\<close>. \<^verbatim>\<open>Encoding.find(nil)\<close> raises
  \<^verbatim>\<open>TypeError\<close>, which the \<^verbatim>\<open>rescue ArgumentError\<close> does not catch. (\<^verbatim>\<open>Encoding\<close> is
  defined, and strings have \<^verbatim>\<open>force_encoding\<close>, in every Ruby from 1.9 on.)
\<close>

definition parse_encoding_from_xml_declaration ::
  "'x externals \<Rightarrow> string \<Rightarrow> error + encoding option" where
  "parse_encoding_from_xml_declaration X xml_declaration =
     (case match_encoding True xml_declaration of
        None \<Rightarrow> Inr None
      | Some None \<Rightarrow> Inl (TypeError ''no implicit conversion of nil into String'')
      | Some (Some name) \<Rightarrow> Inr (Encoding_find X name))"

subsection \<open>The scan loop\<close>

text \<open>
  \<^verbatim>\<open>@scanner.string = @scanner.rest.force_encoding(encoding)\<close> changes the encoding
  tag of the remaining text and none of its bytes. Matching a pattern against the
  retagged text raises when the text does not scan under the new tag, and it
  always raises \<^verbatim>\<open>Encoding::CompatibilityError\<close> when the encoding is not
  ASCII-compatible. \<open>retag_error\<close> is that exception, \<open>None\<close> when the retagged
  text scans; every scan of the same string raises it, wherever the pointer is.
\<close>

definition retag_error :: "'x externals \<Rightarrow> encoding \<Rightarrow> string \<Rightarrow> error option" where
  "retag_error X enc s =
     (case scan_error X enc s of
        Some e \<Rightarrow> Some e
      | None \<Rightarrow>
          if ascii_compatible enc then None
          else Some (CompatibilityError ''incompatible encoding regexp match''))"

text \<open>
  One iteration of the loop of \<^verbatim>\<open>StreamParser#parse\<close>, at a scan pointer that is not
  at the end: the patterns in the order of the \<^verbatim>\<open>if\<close> chain. \<open>blocked\<close> is the
  exception that scans of the scanner's string raise, \<open>None\<close> when it scans. The
  first scan of the iteration raises it. The result is the text behind the match,
  the exception for the scans to come, and the listener after the events. On the
  paths of the declaration branch that leave by \<^verbatim>\<open>next\<close> the string is kept; on the
  third path it is the remaining text under the encoding found.
\<close>

definition scan_step ::
  "'x externals \<Rightarrow> error option \<Rightarrow> string \<Rightarrow> 'x listener
     \<Rightarrow> error + (string \<times> error option \<times> 'x listener)" where
  "scan_step X blocked s l =
     (case blocked of
        Some e \<Rightarrow> Inl e
      | None \<Rightarrow>
     (case scan_COMMENT_START s of
        Some r \<Rightarrow> Inr (case scan_COMMENT_END r of Some r' \<Rightarrow> r' | None \<Rightarrow> r, None, l)
      | None \<Rightarrow>
     (case scan_XMLDECL s of
        Some (decl, r) \<Rightarrow>
          (case parse_encoding_from_xml_declaration X decl of
             Inl e \<Rightarrow> Inl e
           | Inr None \<Rightarrow> Inr (r, None, l)
           | Inr (Some encoding) \<Rightarrow> Inr (r, retag_error X encoding r, l))
      | None \<Rightarrow>
     (case scan_DOCTYPE s of
        Some r \<Rightarrow> Inr (r, None, l)
      | None \<Rightarrow>
     (case scan_start_tag s of
        Some (name, attrs, r) \<Rightarrow>
          (case Listener_tag_start name l of
             Inl e \<Rightarrow> Inl e
           | Inr l1 \<Rightarrow>
               if self_closing attrs
               then (case Listener_tag_end X name l1 of
                       Inl e \<Rightarrow> Inl e
                     | Inr l2 \<Rightarrow> Inr (r, None, l2))
               else Inr (r, None, l1))
      | None \<Rightarrow>
     (case scan_TEXT s of
        Some (t, r) \<Rightarrow> Inr (r, None, Listener_text t l)
      | None \<Rightarrow>
     (case scan_end_tag s of
        Some (name, r) \<Rightarrow>
          (case Listener_tag_end X name l of
             Inl e \<Rightarrow> Inl e
           | Inr l1 \<Rightarrow> Inr (r, None, l1))
      | None \<Rightarrow> Inl (RuntimeError ''Unimplemented element''))))))))"

text \<open>
  Every branch of the loop that does not raise moves the scan pointer forward, so
  the loop ends.
\<close>

lemma scan_COMMENT_END_shorter: "scan_COMMENT_END s = Some r \<Longrightarrow> length r < length s"
  by (induction s) (auto simp: starts_with_def split: if_splits)

lemma scan_COMMENT_START_shorter: "scan_COMMENT_START s = Some r \<Longrightarrow> length r < length s"
  by (cases s) (auto simp: scan_COMMENT_START_def starts_with_def split: if_splits)

lemma tl_dropWhile_shorter: "dropWhile P s \<noteq> [] \<Longrightarrow> length (tl (dropWhile P s)) < length s"
  using length_dropWhile_le [of P s] by (cases "dropWhile P s") auto

lemma scan_XMLDECL_shorter: "scan_XMLDECL s = Some (d, r) \<Longrightarrow> length r < length s"
proof -
  assume a: "scan_XMLDECL s = Some (d, r)"
  let ?s2 = "dropWhile isspace (drop 5 s)"
  let ?s3 = "dropWhile (\<lambda>c. c \<noteq> CHR ''?'') ?s2"
  from a have q: "CHR ''?'' \<in> set ?s2" and r: "r = dropWhile (\<lambda>c. c = CHR ''>'') (tl ?s3)"
    by (auto simp: scan_XMLDECL_def Let_def split: if_splits)
  from q have "?s3 \<noteq> []" by (simp add: dropWhile_eq_Nil_conv) 
  then have "length (tl ?s3) < length ?s2" by (rule tl_dropWhile_shorter)
  moreover have "length ?s2 \<le> length (drop 5 s)" by (rule length_dropWhile_le)
  moreover have "length r \<le> length (tl ?s3)" unfolding r by (rule length_dropWhile_le)
  ultimately show ?thesis by simp
qed

lemma scan_DOCTYPE_shorter: "scan_DOCTYPE s = Some r \<Longrightarrow> length r < length s"
proof -
  assume a: "scan_DOCTYPE s = Some r"
  let ?s0 = "dropWhile isspace s"
  let ?s2 = "dropWhile isspace (drop 9 ?s0)"
  let ?s3 = "dropWhile (\<lambda>c. c \<noteq> CHR ''['' \<and> c \<noteq> CHR ''>'') ?s2"
  from a have q: "?s3 \<noteq> []" and r: "r = tl ?s3"
    by (auto simp: scan_DOCTYPE_def Let_def split: if_splits)
  from q have "length (tl ?s3) < length ?s2" by (rule tl_dropWhile_shorter)
  moreover have "length ?s2 \<le> length (drop 9 ?s0)" by (rule length_dropWhile_le)
  moreover have "length ?s0 \<le> length s" by (rule length_dropWhile_le)
  ultimately show ?thesis using r by simp
qed

lemma match_name_result: "match_name ns s = Some (name, r) \<Longrightarrow> CHR ''>'' \<in> set r \<and> length r \<le> length s"
  by (induction ns) (auto split: if_splits)

lemma tl_dropWhile_gt: "CHR ''>'' \<in> set r \<Longrightarrow> length (tl (dropWhile (\<lambda>c. c \<noteq> CHR ''>'') r)) < length r"
  by (rule tl_dropWhile_shorter) (simp add: dropWhile_eq_Nil_conv)

lemma scan_start_tag_shorter: "scan_start_tag s = Some (name, attrs, r) \<Longrightarrow> length r < length s"
  using tl_dropWhile_gt
  by (fastforce simp: scan_start_tag_def split: list.splits if_splits option.splits dest!: match_name_result)

lemma scan_end_tag_shorter: "scan_end_tag s = Some (name, r) \<Longrightarrow> length r < length s"
  using tl_dropWhile_gt
  by (fastforce simp: scan_end_tag_def split: list.splits if_splits option.splits dest!: match_name_result)

lemma scan_TEXT_shorter: "scan_TEXT s = Some (t, r) \<Longrightarrow> length r < length s"
  by (cases s) (auto simp: scan_TEXT_def Let_def split: if_splits intro: le_imp_less_Suc length_dropWhile_le)

lemma scan_step_not_blocked: "scan_step X blocked s l = Inr c \<Longrightarrow> blocked = None"
  by (cases blocked) (simp_all add: scan_step_def)

lemma scan_step_shorter:
  assumes "scan_step X blocked s l = Inr (r, blocked', l')"
  shows "length r < length s"
proof -
  have b: "blocked = None" using assms by (rule scan_step_not_blocked)
  show ?thesis
  proof (cases "scan_COMMENT_START s")
    case (Some r0)
    then have r0: "length r0 < length s" by (rule scan_COMMENT_START_shorter)
    show ?thesis
    proof (cases "scan_COMMENT_END r0")
      case None
      with Some assms r0 show ?thesis by (simp add: scan_step_def b)
    next
      case (Some r1)
      then have "length r1 < length r0" by (rule scan_COMMENT_END_shorter)
      with Some \<open>scan_COMMENT_START s = Some r0\<close> assms r0 show ?thesis
        by (simp add: scan_step_def b)
    qed
  next
    case None
    with assms show ?thesis
      unfolding scan_step_def b
      by (auto split: option.splits sum.splits if_splits prod.splits
          dest: scan_XMLDECL_shorter scan_DOCTYPE_shorter scan_start_tag_shorter
            scan_TEXT_shorter scan_end_tag_shorter)
  qed
qed

text \<open>
  The loop of \<^verbatim>\<open>StreamParser#parse\<close>: \<^verbatim>\<open>until @scanner.eos?\<close>. An exception of the
  listener or of the scanner leaves the loop and the method.
\<close>

function scan_loop ::
  "'x externals \<Rightarrow> error option \<Rightarrow> string \<Rightarrow> 'x listener \<Rightarrow> error + 'x listener" where
  "scan_loop X blocked s l =
     (if s = [] then Inr l
      else (case scan_step X blocked s l of
              Inl e \<Rightarrow> Inl e
            | Inr (r, blocked', l') \<Rightarrow> scan_loop X blocked' r l'))"
  by pat_completeness auto
termination
  by (relation "measure (\<lambda>(X, blocked, s, l). length s)") (auto dest: scan_step_shorter)

text \<open>
  \<^verbatim>\<open>StreamParser#parse\<close>: \<^verbatim>\<open>@scanner = StringScanner.new(@xml)\<close>, on text that scans,
  and the loop.
\<close>

definition parse :: "'x externals \<Rightarrow> string \<Rightarrow> 'x listener \<Rightarrow> error + 'x listener" where
  "parse X s l = scan_loop X None s l"

text \<open>
  The constructor of \<^verbatim>\<open>StreamParser\<close>: a string does not respond to \<^verbatim>\<open>read\<close>; when it
  names an existing file the text is the content of the file, else the string
  itself.
\<close>

definition StreamParser_new :: "'x externals \<Rightarrow> string \<Rightarrow> string" where
  "StreamParser_new X plist_data_or_file =
     (case File_read X plist_data_or_file of
        Some content \<Rightarrow> content
      | None \<Rightarrow> plist_data_or_file)"

text \<open>\<^verbatim>\<open>Plist.parse_xml\<close>: run the parser on a new listener and return its result.\<close>

definition parse_xml :: "'x externals \<Rightarrow> string \<Rightarrow> error + 'x rvalue" where
  "parse_xml X filename_or_xml =
     (let listener = Listener_new;
          xml = StreamParser_new X filename_or_xml
      in case parse X xml listener of
           Inl e \<Rightarrow> Inl e
         | Inr listener' \<Rightarrow> Inr (result listener'))"

subsection \<open>An instance of the external operations\<close>

text \<open>
  To evaluate the program on concrete documents the external operations need
  values. \<open>plain_externals\<close> is an environment without files and without known
  encoding names (so that no text is ever retagged), in which a float is represented by the text it is read from.
  Its \<open>unescapeHTML\<close> returns the text as it is, which is what
  \<^verbatim>\<open>CGI.unescapeHTML\<close> does on a text without \<^verbatim>\<open>&\<close>; its \<open>Marshal_load\<close> and
  \<open>DateTime_parse\<close> reject their input, as \<^verbatim>\<open>Marshal.load\<close> does on data that does not
  start with the version bytes 4 and 8, and \<^verbatim>\<open>DateTime.parse\<close> on a text that holds no
  date. Its \<open>decode64\<close> reads the base64 alphabet, four characters into three bytes,
  and skips every other character.
\<close>

definition b64_alphabet :: string where
  "b64_alphabet = ''ABCDEFGHIJKLMNOPQRSTUVWXYZabcdefghijklmnopqrstuvwxyz0123456789+/''"

fun index_of :: "'a \<Rightarrow> 'a list \<Rightarrow> nat" where
  "index_of x [] = 0"
| "index_of x (y # ys) = (if x = y then 0 else Suc (index_of x ys))"

fun b64_bytes :: "nat list \<Rightarrow> nat list" where
  "b64_bytes (a # b # c # d # r) =
     (a * 4 + b div 16) # ((b mod 16) * 16 + c div 4) # ((c mod 4) * 64 + d) # b64_bytes r"
| "b64_bytes [a, b, c] = [a * 4 + b div 16, (b mod 16) * 16 + c div 4]"
| "b64_bytes [a, b] = [a * 4 + b div 16]"
| "b64_bytes _ = []"

definition b64_decode :: "string \<Rightarrow> string" where
  "b64_decode s =
     map char_of
       (b64_bytes (map (\<lambda>c. index_of c b64_alphabet) (filter (\<lambda>c. c \<in> set b64_alphabet) s)))"

definition plain_externals :: "string externals" where
  "plain_externals =
     \<lparr>File_read = (\<lambda>p. None),
      Encoding_find = (\<lambda>name. None),
      scan_error = (\<lambda>enc s. None),
      unescapeHTML = (\<lambda>s. Inr s),
      to_f = text_or_empty,
      DateTime_parse = (\<lambda>s. Inl (ArgumentError ''invalid date'')),
      decode64 = b64_decode,
      Marshal_load = (\<lambda>d. Inl (TypeError ''incompatible marshal file format''))\<rparr>"

section \<open>Notions used in the statements\<close>

text \<open>
  The children of a dict alternate when they come in pairs of a \<^verbatim>\<open>key\<close> node and a
  value node. \<open>pair_up\<close> pairs the converted values of such children, \<open>store_all\<close>
  stores the pairs into a hash one after the other, and \<open>first_seen\<close> is a list
  without its repetitions, each element at its first place.
\<close>

fun kv_alternate :: "node list \<Rightarrow> bool" where
  "kv_alternate [] = True"
| "kv_alternate [k] = False"
| "kv_alternate (k # v # cs) = (kind k = PKey \<and> kv_alternate cs)"

fun pair_up :: "'a list \<Rightarrow> ('a \<times> 'a) list" where
  "pair_up (k # v # r) = (k, v) # pair_up r"
| "pair_up _ = []"

fun first_seen :: "'a list \<Rightarrow> 'a list" where
  "first_seen [] = []"
| "first_seen (x # xs) = x # filter (\<lambda>y. y \<noteq> x) (first_seen xs)"

definition store_all :: "('k \<times> 'v) list \<Rightarrow> ('k \<times> 'v) list \<Rightarrow> ('k \<times> 'v) list" where
  "store_all h ps = foldl (\<lambda>d (k, v). hash_store d k v) h ps"

section \<open>Properties of the hash and of the dict loop\<close>

lemma hash_store_keys:
  "map fst (hash_store h k v) = (if k \<in> set (map fst h) then map fst h else map fst h @ [k])"
  by (induction h) force+

lemma map_of_hash_store: "map_of (hash_store h k v) = (map_of h)(k \<mapsto> v)"
  by (induction h) (auto simp: fun_eq_iff)

lemma store_all_Cons: "store_all h ((k, v) # ps) = store_all (hash_store h k v) ps"
  by (simp add: store_all_def)

lemma map_of_store_all: "map_of (store_all h ps) = map_of (rev ps @ h)"
proof (induction ps arbitrary: h)
  case Nil show ?case by (simp add: store_all_def)
next
  case (Cons p ps)
  obtain k v where p: "p = (k, v)" by (cases p)
  show ?case unfolding p store_all_Cons Cons.IH
    by (simp add: map_of_hash_store fun_eq_iff map_add_def split: option.splits)
qed

lemma set_first_seen: "set (first_seen xs) = set xs"
  by (induction xs) auto

lemma first_seen_distinct: "distinct xs \<Longrightarrow> first_seen xs = xs"
  by (induction xs) (auto simp: set_first_seen filter_id_conv)

lemma distinct_first_seen: "distinct (first_seen xs)"
  by (induction xs) auto

lemma filter_first_seen_again:
  "\<not> P k \<Longrightarrow> filter P (first_seen (xs @ k # ys)) = filter P (first_seen (xs @ ys))"
proof (induction xs arbitrary: P)
  case Nil
  then have "\<And>x. (x \<noteq> k \<and> P x) = P x" by auto
  then show ?case using Nil by simp
next
  case (Cons a xs)
  then show ?case by simp
qed

lemma first_seen_again: "k \<in> set xs \<Longrightarrow> first_seen (xs @ k # ys) = first_seen (xs @ ys)"
  by (induction xs) (auto simp: filter_first_seen_again)

lemma keys_store_all:
  "distinct (map fst h) \<Longrightarrow> map fst (store_all h ps) = first_seen (map fst h @ map fst ps)"
proof (induction ps arbitrary: h)
  case Nil then show ?case by (simp add: store_all_def first_seen_distinct)
next
  case (Cons p ps)
  obtain k v where p: "p = (k, v)" by (cases p)
  have d: "distinct (map fst (hash_store h k v))"
    using Cons.prems by (simp add: hash_store_keys)
  show ?case
    unfolding p store_all_Cons Cons.IH [OF d]
    by (simp add: hash_store_keys first_seen_again)
qed


lemma PKey_to_ruby_not_nil: "kind k = PKey \<Longrightarrow> to_ruby X k = Inr v \<Longrightarrow> v \<noteq> VNil"
  by (cases k) (auto simp: PString_to_ruby_def split: sum.splits)

lemma dict_each_pairs:
  "kv_alternate cs \<Longrightarrow>
   dict_each X cs d VNil =
     (case collect X cs of Inl e \<Rightarrow> Inl e | Inr vs \<Rightarrow> Inr (store_all d (pair_up vs)))"
proof (induction cs arbitrary: d rule: kv_alternate.induct)
  case 1
  show ?case by (simp add: store_all_def)
next
  case (2 k)
  then show ?case by simp
next
  case (3 k v cs)
  then have k: "kind k = PKey" and IH: "\<And>d. dict_each X cs d VNil =
     (case collect X cs of Inl e \<Rightarrow> Inl e | Inr vs \<Rightarrow> Inr (store_all d (pair_up vs)))"
    by simp_all
  show ?case
  proof (cases "to_ruby X k")
    case (Inl e)
    then show ?thesis by simp
  next
    case (Inr kv)
    with k have nn: "kv \<noteq> VNil" by (rule PKey_to_ruby_not_nil)
    show ?thesis
      using Inr nn IH by (simp add: store_all_Cons split: sum.splits)
  qed
qed

lemma dict_each_trailing:
  "kv_alternate cs \<Longrightarrow>
   dict_each X (cs @ [c]) d VNil =
     (case dict_each X cs d VNil of
        Inl e \<Rightarrow> Inl e
      | Inr d' \<Rightarrow> (case to_ruby X c of Inl e \<Rightarrow> Inl e | Inr v \<Rightarrow> Inr d'))"
proof (induction cs arbitrary: d rule: kv_alternate.induct)
  case 1
  show ?case by (simp split: sum.splits)
next
  case (2 k)
  then show ?case by simp
next
  case (3 k v cs)
  then have k: "kind k = PKey" and IH: "\<And>d. dict_each X (cs @ [c]) d VNil =
     (case dict_each X cs d VNil of
        Inl e \<Rightarrow> Inl e
      | Inr d' \<Rightarrow> (case to_ruby X c of Inl e \<Rightarrow> Inl e | Inr v \<Rightarrow> Inr d'))"
    by simp_all
  show ?case
  proof (cases "to_ruby X k")
    case (Inl e)
    then show ?thesis by simp
  next
    case (Inr kv)
    with k have nn: "kv \<noteq> VNil" by (rule PKey_to_ruby_not_nil)
    show ?thesis
      using Inr nn IH by (simp split: sum.splits)
  qed
qed

lemma collect_nth:
  "collect X cs = Inr vs \<Longrightarrow> length vs = length cs \<and> (\<forall>i<length cs. to_ruby X (cs ! i) = Inr (vs ! i))"
proof (induction cs arbitrary: vs)
  case Nil then show ?case by simp
next
  case (Cons c cs)
  then show ?case by (auto split: sum.splits simp: nth_Cons split: nat.splits)
qed

lemma strip_sign_subset: "set (snd (strip_sign s)) \<subseteq> set s"
  by (auto simp: strip_sign_def split: list.splits if_splits)

lemma String_to_i_no_digit:
  assumes "\<forall>c\<in>set s. \<not> isdigit c"
  shows "String_to_i s = 0"
proof -
  obtain neg s2 where ss: "strip_sign (dropWhile isspace s) = (neg, s2)"
    by (cases "strip_sign (dropWhile isspace s)")
  have "set s2 \<subseteq> set (dropWhile isspace s)"
    using strip_sign_subset [of "dropWhile isspace s"] ss by simp
  moreover have "set (dropWhile isspace s) \<subseteq> set s"
    by (auto dest: set_dropWhileD)
  ultimately have nd: "\<forall>c\<in>set s2. \<not> isdigit c" using assms by blast
  have z: "isdigit (CHR ''0'')" by (simp add: isdigit_def)
  have s3: "strip_0d s2 = s2"
    using nd z by (auto simp: strip_0d_def split: list.splits)
  have "(case s2 of [] \<Rightarrow> 0 | c # _ \<Rightarrow> if isdigit c then scan_digits False 0 s2 else 0) = 0"
    using nd by (cases s2) auto
  then show ?thesis
    by (simp add: String_to_i_def ss s3)
qed

section \<open>Value conversion: the claims\<close>

text \<open>
  Claim C9. A plist node converts to the converted value of its first child when it
  has a child, and to the absence value \<open>VNil\<close>, not an error, when it has none.
\<close>

theorem PList_to_ruby_first_child:
  "to_ruby X (Node PList t []) = Inr VNil \<and> to_ruby X (Node PList t (c # cs)) = to_ruby X c"
  by simp



text \<open>
  Claim C7. For a dict node whose children alternate (key, value), the conversion
  stores, in the order of the children, each key's converted string with the
  converted value of the child that follows it; an exception of a child's conversion
  is the exception of the dict. The keys of the resulting hash stand in the order
  in which they were first seen, and looking a key up gives the value stored last.
\<close>

theorem PDict_to_ruby_pairs:
  "(kv_alternate cs \<longrightarrow>
      to_ruby X (Node PDict t cs) =
        (case collect X cs of
           Inl e \<Rightarrow> Inl e
         | Inr vs \<Rightarrow> Inr (VHash (store_all [] (pair_up vs)))))
   \<and> (collect X cs = Inr vs \<longrightarrow>
        length vs = length cs \<and> (\<forall>i<length cs. to_ruby X (cs ! i) = Inr (vs ! i)))
   \<and> map fst (store_all [] ps) = first_seen (map fst ps)
   \<and> distinct (map fst (store_all [] ps))
   \<and> map_of (store_all [] ps) = map_of (rev ps)"
proof (intro conjI impI)
  assume "kv_alternate cs"
  then show "to_ruby X (Node PDict t cs) =
        (case collect X cs of
           Inl e \<Rightarrow> Inl e
         | Inr vs \<Rightarrow> Inr (VHash (store_all [] (pair_up vs))))"
    by (simp add: dict_each_pairs split: sum.splits)
next
  assume "collect X cs = Inr vs"
  then show "length vs = length cs" by (simp add: collect_nth)
next
  assume "collect X cs = Inr vs"
  then show "\<forall>i<length cs. to_ruby X (cs ! i) = Inr (vs ! i)" by (simp add: collect_nth)
next
  show k: "map fst (store_all [] ps) = first_seen (map fst ps)"
    using keys_store_all [of "[]" ps] by simp
  show "distinct (map fst (store_all [] ps))"
    unfolding k by (rule distinct_first_seen)
next
  show "map_of (store_all [] ps) = map_of (rev ps)"
    by (simp add: map_of_store_all)
qed

theorem PDict_to_ruby_pairs_witness:
  "kv_alternate [Node PKey (Some ''a'') [], Node PString (Some ''x'') [],
                 Node PKey (Some ''b'') [], Node PInteger (Some ''2'') []]
   \<and> collect plain_externals
         [Node PKey (Some ''a'') [], Node PString (Some ''x'') [],
          Node PKey (Some ''b'') [], Node PInteger (Some ''2'') []]
       = Inr [VString ''a'', VString ''x'', VString ''b'', VInt 2]
   \<and> to_ruby plain_externals
        (Node PDict None [Node PKey (Some ''a'') [], Node PString (Some ''x'') [],
                          Node PKey (Some ''b'') [], Node PInteger (Some ''2'') []])
      = Inr (VHash [(VString ''a'', VString ''x''), (VString ''b'', VInt 2)])
   \<and> to_ruby plain_externals
        (Node PDict None [Node PKey (Some ''a'') [], Node PString (Some ''x'') [],
                          Node PKey (Some ''b'') [], Node PInteger (Some ''2'') [],
                          Node PKey (Some ''a'') [], Node PString (Some ''y'') []])
      = Inr (VHash [(VString ''a'', VString ''y''), (VString ''b'', VInt 2)])"
proof -
  let ?cs = "[Node PKey (Some ''a'') [], Node PString (Some ''x'') [],
              Node PKey (Some ''b'') [], Node PInteger (Some ''2'') []]"
  let ?ds = "?cs @ [Node PKey (Some ''a'') [], Node PString (Some ''y'') []]"
  have ev: "to_i (Some ''2'') = 2"
    by (simp add: to_i_def String_to_i_def strip_sign_def strip_0d_def isspace_def
        isdigit_def digit_val_def)
  have a: "kv_alternate ?cs" and b: "kv_alternate ?ds"
    by simp_all
  have c: "collect plain_externals ?cs = Inr [VString ''a'', VString ''x'', VString ''b'', VInt 2]"
    by (simp add: plain_externals_def PString_to_ruby_def text_or_empty_def ev)
  have d: "collect plain_externals ?ds =
      Inr [VString ''a'', VString ''x'', VString ''b'', VInt 2, VString ''a'', VString ''y'']"
    by (simp add: plain_externals_def PString_to_ruby_def text_or_empty_def ev)
  have "to_ruby plain_externals (Node PDict None ?cs) =
      Inr (VHash [(VString ''a'', VString ''x''), (VString ''b'', VInt 2)])"
    using PDict_to_ruby_pairs [of ?cs plain_externals None, THEN conjunct1] a
    by (simp only: c) (simp add: store_all_def)
  moreover have "to_ruby plain_externals (Node PDict None ?ds) =
      Inr (VHash [(VString ''a'', VString ''y''), (VString ''b'', VInt 2)])"
    using PDict_to_ruby_pairs [of ?ds plain_externals None, THEN conjunct1] b
    by (simp only: d) (simp add: store_all_def)
  ultimately show ?thesis
    using a c by simp
qed

text \<open>
  Claim C3, as amended. A dict node with an odd number of children, pairs of a key
  and a value followed by one more child, does not fail at conversion because of
  that child: when the trailing child converts, the dict converts to what it
  converts to without it, so the trailing key is dropped.
\<close>

theorem PDict_to_ruby_trailing_key:
  "kv_alternate cs \<Longrightarrow> to_ruby X c = Inr v \<Longrightarrow>
   to_ruby X (Node PDict t (cs @ [c])) = to_ruby X (Node PDict t cs)"
  by (simp add: dict_each_trailing split: sum.splits)

theorem PDict_to_ruby_trailing_key_witness:
  "to_ruby plain_externals
     (Node PDict None ([Node PKey (Some ''a'') [], Node PString (Some ''x'') []] @ [Node PKey (Some ''b'') []]))
   = Inr (VHash [(VString ''a'', VString ''x'')])"
  using PDict_to_ruby_trailing_key [of "[Node PKey (Some ''a'') [], Node PString (Some ''x'') []]"
      plain_externals "Node PKey (Some ''b'') []" "VString ''b''" None]
  by (simp add: plain_externals_def PString_to_ruby_def text_or_empty_def)

text \<open>
  Claim C3 as stated fails: the dict with the children key \<^verbatim>\<open>a\<close>, string \<^verbatim>\<open>x\<close>, key
  \<^verbatim>\<open>b\<close> converts to the hash that maps \<^verbatim>\<open>a\<close> to \<^verbatim>\<open>x\<close>.
\<close>

theorem PDict_odd_children_counterexample:
  "to_ruby plain_externals
     (Node PDict None [Node PKey (Some ''a'') [], Node PString (Some ''x'') [], Node PKey (Some ''b'') []])
   = Inr (VHash [(VString ''a'', VString ''x'')])"
  by (simp add: plain_externals_def PString_to_ruby_def text_or_empty_def)


text \<open>
  Claim C2, as amended. The conversion of an integer node never fails: it is
  \<^verbatim>\<open>text.to_i\<close>, which is 0 for a text that was never set and for a text without a
  digit.
\<close>

theorem PInteger_to_ruby_never_fails:
  "to_ruby X (Node PInteger t cs) = Inr (VInt (to_i t))
   \<and> to_i None = 0
   \<and> ((\<forall>c\<in>set s. \<not> isdigit c) \<longrightarrow> to_i (Some s) = 0)"
  by (simp add: to_i_def String_to_i_no_digit)

theorem PInteger_to_ruby_never_fails_witness:
  "(\<forall>c\<in>set ''abc''. \<not> isdigit c) = True
   \<and> to_ruby plain_externals (Node PInteger (Some ''abc'') []) = Inr (VInt 0)"
  using PInteger_to_ruby_never_fails [of plain_externals "Some ''abc''" "[]" "''abc''"]
  by (simp add: isdigit_def)

text \<open>
  Claim C2 as stated fails: the integer node with the text \<^verbatim>\<open>abc\<close> converts to 0, and
  so does the document that holds it.
\<close>

theorem PInteger_non_numeric_counterexample:
  "to_ruby plain_externals (Node PInteger (Some ''abc'') []) = Inr (VInt 0)
   \<and> parse_xml plain_externals ''<integer>abc</integer>'' = Inr (VInt 0)"
  by code_simp

text \<open>
  Claim C8. When \<^verbatim>\<open>Marshal.load\<close> fails on the decoded bytes of a data node, the
  conversion does not fail: it returns a \<^verbatim>\<open>StringIO\<close> that holds the decoded bytes.
\<close>

theorem PData_to_ruby_fallback:
  "Marshal_load X (decode64 X (gsub_space s)) = Inl e \<Longrightarrow>
   to_ruby X (Node PData (Some s) cs) = Inr (VStringIO (decode64 X (gsub_space s)))"
  by (simp add: PData_to_ruby_def)

theorem PData_to_ruby_fallback_witness:
  "Marshal_load plain_externals (decode64 plain_externals (gsub_space ''aGk='')) =
     Inl (TypeError ''incompatible marshal file format'')
   \<and> to_ruby plain_externals (Node PData (Some ''aGk='') []) = Inr (VStringIO ''hi'')"
proof -
  have d: "decode64 plain_externals (gsub_space ''aGk='') = ''hi''"
    by code_simp
  have m: "Marshal_load plain_externals (decode64 plain_externals (gsub_space ''aGk='')) =
     Inl (TypeError ''incompatible marshal file format'')"
    by (simp add: plain_externals_def)
  show ?thesis
    using PData_to_ruby_fallback [OF m, of "[]"] m d by simp
qed

section \<open>Tree builder: the claims\<close>

text \<open>
  Claim C4, as amended. When the text event fires several times while the same node
  is on top of the non-empty stack, each delivery replaces the text of that node:
  its final text is the run delivered last, and the rest of the stack is unchanged.
\<close>

theorem Listener_text_replaces:
  "open l \<noteq> [] \<Longrightarrow> runs \<noteq> [] \<Longrightarrow>
   open (foldl (\<lambda>l contents. Listener_text contents l) l runs) =
     butlast (open l) @ [set_text (last runs) (last (open l))]
   \<and> text_of (last (open (foldl (\<lambda>l contents. Listener_text contents l) l runs))) = Some (last runs)"
proof (induction runs arbitrary: l rule: rev_induct)
  case Nil
  then show ?case by simp
next
  case (snoc r runs)
  show ?case
  proof (cases "runs = []")
    case True
    with snoc.prems show ?thesis by (simp add: Listener_text_def set_text_def)
  next
    case False
    from snoc.IH [OF snoc.prems(1) False]
    show ?thesis by (simp add: Listener_text_def set_text_def)
  qed
qed

theorem Listener_text_replaces_witness:
  "text_of (last (open (foldl (\<lambda>l contents. Listener_text contents l)
      \<lparr>result = (VNil :: string rvalue), open = [new_node PString]\<rparr> [''a'', ''b'']))) = Some ''b''"
  using Listener_text_replaces [of "\<lparr>result = (VNil :: string rvalue), open = [new_node PString]\<rparr>" "[''a'', ''b'']"]
  by (simp add: set_text_def)

text \<open>
  Claim C4 as stated fails: after the runs \<^verbatim>\<open>a\<close> and \<^verbatim>\<open>b\<close> the text of the top node is
  \<^verbatim>\<open>b\<close>, not \<^verbatim>\<open>ab\<close>; a comment inside a string element splits its text into two runs,
  and the document converts to the second.
\<close>

theorem Listener_text_append_counterexample:
  "text_of (last (open (Listener_text ''b'' (Listener_text ''a''
      \<lparr>result = (VNil :: string rvalue), open = [new_node PString]\<rparr>)))) = Some ''b''
   \<and> Some ''b'' \<noteq> Some (''a'' @ ''b'')
   \<and> parse_xml plain_externals ''<string>a<!--c-->b</string>'' = Inr (VString ''b'')"
  by code_simp

section \<open>Properties of the scanner\<close>

lemma tl_set_subset: "set (tl xs) \<subseteq> set xs"
  by (cases xs) auto

lemma set_dropWhile_subset: "set (dropWhile P xs) \<subseteq> set xs"
  by (auto dest: set_dropWhileD)

lemma scan_COMMENT_END_subset: "scan_COMMENT_END s = Some r \<Longrightarrow> set r \<subseteq> set s"
  by (induction s arbitrary: r) (auto split: if_splits dest: in_set_dropD)

lemma scan_COMMENT_START_subset: "scan_COMMENT_START s = Some r \<Longrightarrow> set r \<subseteq> set s"
  by (auto simp: scan_COMMENT_START_def split: if_splits dest: in_set_dropD)

lemma scan_XMLDECL_subset: "scan_XMLDECL s = Some (d, r) \<Longrightarrow> set r \<subseteq> set s"
  by (auto simp: scan_XMLDECL_def Let_def split: if_splits
      dest!: set_dropWhileD set_mp [OF tl_set_subset] dest: in_set_dropD)

lemma scan_DOCTYPE_subset: "scan_DOCTYPE s = Some r \<Longrightarrow> set r \<subseteq> set s"
  by (auto simp: scan_DOCTYPE_def Let_def split: if_splits
      dest!: set_mp [OF tl_set_subset] set_dropWhileD dest: in_set_dropD)

lemma match_name_subset: "match_name ns s = Some (name, r) \<Longrightarrow> set r \<subseteq> set s"
  by (induction ns) (auto split: if_splits dest: in_set_dropD)

lemma scan_start_tag_subset:
  "scan_start_tag s = Some (name, attrs, r) \<Longrightarrow> set attrs \<subseteq> set s \<and> set r \<subseteq> set s"
  by (auto simp: scan_start_tag_def split: list.splits if_splits option.splits
      dest!: match_name_subset set_mp [OF tl_set_subset] set_dropWhileD set_takeWhileD)

lemma scan_TEXT_subset: "scan_TEXT s = Some (t, r) \<Longrightarrow> set r \<subseteq> set s"
  by (auto simp: scan_TEXT_def Let_def split: if_splits dest!: set_dropWhileD)

lemma self_closing_slash: "self_closing a \<Longrightarrow> CHR ''/'' \<in> set a"
  by (induction a) auto

lemma scan_end_tag_slash: "scan_end_tag s = Some x \<Longrightarrow> CHR ''/'' \<in> set s"
  by (cases s; cases "tl s") (auto simp: scan_end_tag_def starts_with_def split: if_splits)

lemma Listener_tag_start_result: "Listener_tag_start name l = Inr l' \<Longrightarrow> result l' = result l"
  by (auto simp: Listener_tag_start_def split: option.splits)

lemma Listener_text_result: "result (Listener_text c l) = result l"
  by (simp add: Listener_text_def)

lemma scan_step_no_slash:
  assumes "scan_step X blocked s l = Inr (r, blocked', l')" and "CHR ''/'' \<notin> set s"
  shows "CHR ''/'' \<notin> set r \<and> result l' = result l"
proof -
  have b: "blocked = None" using assms(1) by (rule scan_step_not_blocked)
  note st = assms(1) [unfolded b]
  show ?thesis
  proof (cases "scan_COMMENT_START s")
    case (Some r0)
    then have "set r0 \<subseteq> set s" by (rule scan_COMMENT_START_subset)
    moreover have "set r \<subseteq> set r0"
      using st Some
      by (auto simp: scan_step_def split: option.splits dest: scan_COMMENT_END_subset)
    moreover have "l' = l"
      using st Some by (auto simp: scan_step_def split: option.splits)
    ultimately show ?thesis using assms(2) by auto
  next
    case None
    note n1 = None
    show ?thesis
    proof (cases "scan_XMLDECL s")
      case (Some dr)
      with n1 st assms(2) show ?thesis
        by (cases dr)
          (auto simp: scan_step_def split: sum.splits option.splits dest: scan_XMLDECL_subset)
    next
      case None
      note n2 = None
      show ?thesis
      proof (cases "scan_DOCTYPE s")
        case (Some r0)
        with n1 n2 st assms(2) show ?thesis
          by (auto simp: scan_step_def dest: scan_DOCTYPE_subset)
      next
        case None
        note n3 = None
        show ?thesis
        proof (cases "scan_start_tag s")
          case (Some nar)
          then obtain name attrs r0 where nar: "scan_start_tag s = Some (name, attrs, r0)"
            by (cases nar) auto
          from scan_start_tag_subset [OF nar] assms(2)
          have a: "CHR ''/'' \<notin> set attrs" and r0: "CHR ''/'' \<notin> set r0" by auto
          from a have "\<not> self_closing attrs" using self_closing_slash by blast
          with n1 n2 n3 nar st r0 show ?thesis
            by (auto simp: scan_step_def split: sum.splits dest: Listener_tag_start_result)
        next
          case None
          note n4 = None
          show ?thesis
          proof (cases "scan_TEXT s")
            case (Some tr)
            with n1 n2 n3 n4 st assms(2) show ?thesis
              by (cases tr)
                (auto simp: scan_step_def Listener_text_result dest: scan_TEXT_subset)
          next
            case None
            have "scan_end_tag s = None"
              using scan_end_tag_slash assms(2) by (cases "scan_end_tag s") auto
            with n1 n2 n3 n4 None st show ?thesis
              by (simp add: scan_step_def)
          qed
        qed
      qed
    qed
  qed
qed

lemma scan_loop_no_slash:
  "scan_loop X blocked s l = Inr l' \<Longrightarrow> CHR ''/'' \<notin> set s \<Longrightarrow> result l' = result l"
proof (induction X blocked s l rule: scan_loop.induct)
  case (1 X blocked s l)
  show ?case
  proof (cases "s = []")
    case True
    with "1.prems" show ?thesis by simp
  next
    case False
    with "1.prems"(1) obtain r b1 l1 where st: "scan_step X blocked s l = Inr (r, b1, l1)"
      and p: "scan_loop X b1 r l1 = Inr l'"
      by (auto split: sum.splits)
    from scan_step_no_slash [OF st "1.prems"(2)]
    have ns: "CHR ''/'' \<notin> set r" and "result l1 = result l" by simp_all
    with "1.IH" [OF False st refl refl p ns] show ?thesis by simp
  qed
qed

lemma parse_no_slash:
  "parse X s l = Inr l' \<Longrightarrow> CHR ''/'' \<notin> set s \<Longrightarrow> result l' = result l"
  unfolding parse_def by (rule scan_loop_no_slash)

text \<open>
  A declared encoding under which the remaining text does not scan: the next scan
  raises, unless the declaration ends the text.
\<close>

lemma scan_loop_blocked: "s \<noteq> [] \<Longrightarrow> scan_loop X (Some e) s l = Inl e"
  by (simp add: scan_step_def)

lemma declared_encoding_raises:
  assumes "scan_COMMENT_START s = None" and "scan_XMLDECL s = Some (decl, r)"
    and "parse_encoding_from_xml_declaration X decl = Inr (Some enc)"
    and "retag_error X enc r = Some e" and "r \<noteq> []"
  shows "parse X s l = Inl e"
proof -
  have s: "s \<noteq> []"
    using assms(2) by (auto simp: scan_XMLDECL_def starts_with_def split: if_splits)
  have st: "scan_step X None s l = Inr (r, Some e, l)"
    by (simp add: scan_step_def assms)
  have "parse X s l = scan_loop X (Some e) r l"
    unfolding parse_def by (subst scan_loop.simps) (simp add: s st)
  then show ?thesis
    by (simp only: scan_loop_blocked [OF assms(5)])
qed

section \<open>Scanner and entry point: the claims\<close>

text \<open>
  Claim C1, as amended. When the scan of the input ends while nodes are still open
  on the stack, \<^verbatim>\<open>parse_xml\<close> does not fail: it returns the result field of the
  listener. That is the absence value \<open>VNil\<close> when the text holds no slash, so that
  no element was ever closed.
\<close>

theorem parse_xml_open_nodes_returns:
  assumes "parse X (StreamParser_new X doc) Listener_new = Inr l" and "open l \<noteq> []"
  shows "parse_xml X doc = Inr (result l)
         \<and> (CHR ''/'' \<notin> set (StreamParser_new X doc) \<longrightarrow> parse_xml X doc = Inr VNil)"
proof -
  have "CHR ''/'' \<notin> set (StreamParser_new X doc) \<Longrightarrow> result l = VNil"
    using parse_no_slash [OF assms(1)] by (simp add: Listener_new_def)
  then show ?thesis
    using assms(1) by (auto simp: parse_xml_def)
qed

theorem parse_xml_open_nodes_returns_witness:
  "parse plain_externals (StreamParser_new plain_externals ''<dict>'') Listener_new =
     Inr \<lparr>result = VNil, open = [new_node PDict]\<rparr>
   \<and> open \<lparr>result = (VNil :: string rvalue), open = [new_node PDict]\<rparr> \<noteq> []
   \<and> parse_xml plain_externals ''<dict>'' = Inr VNil"
proof -
  have p: "parse plain_externals (StreamParser_new plain_externals ''<dict>'') Listener_new =
     Inr \<lparr>result = VNil, open = [new_node PDict]\<rparr>"
    by code_simp
  have q: "open \<lparr>result = (VNil :: string rvalue), open = [new_node PDict]\<rparr> \<noteq> []"
    by simp
  show ?thesis
    using parse_xml_open_nodes_returns [OF p q] p by simp
qed

text \<open>
  Claim C1 as stated fails: the texts \<^verbatim>\<open><dict>\<close> and
  \<^verbatim>\<open><plist><dict><key>a</key><string>x</string>\<close> end with open nodes, and
  \<^verbatim>\<open>parse_xml\<close> returns \<^verbatim>\<open>nil\<close> for both.
\<close>

theorem unterminated_document_counterexample:
  "parse_xml plain_externals ''<dict>'' = Inr VNil
   \<and> parse_xml plain_externals ''<plist><dict><key>a</key><string>x</string>'' = Inr VNil"
  by code_simp

text \<open>
  Claim C5. An element name outside the registry is to make the parse fail, and
  \<^verbatim>\<open>foo\<close> does: no pattern matches at \<^verbatim>\<open><foo>\<close>, and the last branch raises
  \<^verbatim>\<open>Unimplemented element\<close>. The name \<^verbatim>\<open>keyboard\<close> is outside the registry as well, but
  the start-tag pattern has nothing between the name and the attribute text: it
  matches \<^verbatim>\<open><keyboard>\<close> as the tag \<^verbatim>\<open>key\<close> with the attribute text \<^verbatim>\<open>board\<close>, and the
  document converts to the text of the element.
\<close>

theorem prefixed_element_name_accepted:
  "scan_start_tag ''<keyboard>x</keyboard></plist>'' =
     Some (''key'', ''board'', ''x</keyboard></plist>'')
   \<and> parse_xml plain_externals ''<plist><keyboard>x</keyboard></plist>'' = Inr (VString ''x'')
   \<and> parse_xml plain_externals ''<plist><foo>bar</foo></plist>'' =
       Inl (RuntimeError ''Unimplemented element'')"
  by code_simp

text \<open>
  Claim C6. The scanner matches \<^verbatim>\<open><DICT>\<close> and captures the name as \<^verbatim>\<open>DICT\<close>; the
  registry has only the key \<^verbatim>\<open>dict\<close>, so \<^verbatim>\<open>tag_start\<close> raises and so does
  \<^verbatim>\<open>parse_xml\<close>, while the lower-case document converts to the empty hash. An end
  tag in upper case closes the node, since \<^verbatim>\<open>tag_end\<close> does not use the name.
\<close>

theorem uppercase_start_tag_raises:
  "scan_start_tag ''<DICT></DICT>'' = Some (''DICT'', [], ''</DICT>'')
   \<and> Listener_tag_start ''DICT'' (Listener_new :: string listener) = Inl (NoMethodError ''new'')
   \<and> parse_xml plain_externals ''<DICT></DICT>'' = Inl (NoMethodError ''new'')
   \<and> parse_xml plain_externals ''<dict></dict>'' = Inr (VHash [])
   \<and> parse_xml plain_externals ''<dict></DICT>'' = Inr (VHash [])"
  by code_simp

end
